theory Spec2Isabelle
  imports Main "HOL-Library.Word"
begin

section \<open>JavaScript values and strings\<close>

text \<open>
  A JavaScript string is a sequence of UTF-16 code units; \<open>length\<close>, \<open>slice\<close>, the
  \<open>index\<close> of a match and \<open>lastIndex\<close> all count code units. The literals of
  \<^verbatim>\<open>src/server/analyze.js\<close> are ASCII and are written as HOL strings, embedded by \<open>js\<close>.
\<close>

type_synonym code_unit = "16 word"
type_synonym jsstring = "code_unit list"

definition js :: "string \<Rightarrow> jsstring" where
  "js s = map of_char s"

text \<open>
  The argument of \<open>analyze\<close> is any JavaScript value. The function inspects only its
  truthiness (\<^verbatim>\<open>!code\<close>) and its \<^verbatim>\<open>typeof\<close>, and the content of a string;
  numbers are represented by integers (\<open>0\<close> is the falsy one) and every object by \<open>JObject\<close>.
\<close>

datatype jsvalue =
    JUndefined
  | JNull
  | JBoolean bool
  | JNumber int
  | JString jsstring
  | JObject

fun typeof :: "jsvalue \<Rightarrow> string" where
  "typeof JUndefined = ''undefined''"
| "typeof JNull = ''object''"
| "typeof (JBoolean b) = ''boolean''"
| "typeof (JNumber n) = ''number''"
| "typeof (JString s) = ''string''"
| "typeof JObject = ''object''"

fun truthy :: "jsvalue \<Rightarrow> bool" where
  "truthy JUndefined = False"
| "truthy JNull = False"
| "truthy (JBoolean b) = b"
| "truthy (JNumber n) = (n \<noteq> 0)"
| "truthy (JString s) = (s \<noteq> [])"
| "truthy JObject = True"

fun string_of :: "jsvalue \<Rightarrow> jsstring" where
  "string_of (JString s) = s"
| "string_of _ = []"

text \<open>
  WhiteSpace and LineTerminator of ECMAScript: the code units that \<^verbatim>\<open>\s\<close> matches and
  that \<^verbatim>\<open>String.prototype.trim\<close> strips (TAB, LF, VT, FF, CR, SP, NBSP, U+1680,
  U+2000..U+200A, LS, PS, U+202F, U+205F, U+3000, U+FEFF).
\<close>

definition white_space :: "code_unit list" where
  "white_space = [9, 10, 11, 12, 13, 32, 160, 5760,
     8192, 8193, 8194, 8195, 8196, 8197, 8198, 8199, 8200, 8201, 8202,
     8232, 8233, 8239, 8287, 12288, 65279]"

definition is_space :: "code_unit \<Rightarrow> bool" where
  "is_space u = (u \<in> set white_space)"

definition is_line_terminator :: "code_unit \<Rightarrow> bool" where
  "is_line_terminator u = (u \<in> set [10, 13, 8232, 8233])"

definition trim :: "jsstring \<Rightarrow> jsstring" where
  "trim s = rev (dropWhile is_space (rev (dropWhile is_space s)))"

definition slice :: "jsstring \<Rightarrow> nat \<Rightarrow> nat \<Rightarrow> jsstring" where
  "slice s a b = take (b - a) (drop a s)"

section \<open>Regular expressions\<close>

text \<open>
  The syntax of the regular expressions that occur in the rule catalog: single-character
  atoms (a literal, \<^verbatim>\<open>.\<close>, a class, a negated class), greedy \<^verbatim>\<open>*\<close> and \<^verbatim>\<open>+\<close>
  (in the catalog they are applied to atoms only), sequence, alternation, numbered capture
  groups and negative lookahead.
\<close>

datatype cset_item = CChar char | CRange char char | CSpace

datatype atom = Chr char | Dot | Cls "cset_item list" | NCls "cset_item list"

datatype regex =
    Empty
  | Atom atom
  | Star atom
  | Plus atom
  | Seq regex regex
  | Alt regex regex
  | Group nat regex
  | NegLookahead regex

fun cat :: "regex list \<Rightarrow> regex" where
  "cat [] = Empty"
| "cat [r] = r"
| "cat (r # rs) = Seq r (cat rs)"

fun alt :: "regex list \<Rightarrow> regex" where
  "alt [] = Empty"
| "alt [r] = r"
| "alt (r # rs) = Alt r (alt rs)"

fun str :: "string \<Rightarrow> regex" where
  "str [] = Empty"
| "str [c] = Atom (Chr c)"
| "str (c # cs) = Seq (Atom (Chr c)) (str cs)"

definition chr :: "char \<Rightarrow> regex" where
  "chr c = Atom (Chr c)"

definition ws :: atom where
  "ws = Cls [CSpace]"

definition no :: "char \<Rightarrow> atom" where
  "no c = NCls [CChar c]"

fun item_has :: "cset_item \<Rightarrow> code_unit \<Rightarrow> bool" where
  "item_has (CChar c) u = (u = of_char c)"
| "item_has (CRange a b) u = (of_char a \<le> u \<and> u \<le> of_char b)"
| "item_has CSpace u = is_space u"

text \<open>
  Under the \<^verbatim>\<open>i\<close> flag two code units match when their canonical forms agree. The
  literals of the catalog are ASCII, and the canonical form of a code unit above 127 is
  never below 128, so against an ASCII literal only the ASCII letters fold. The two
  patterns with the \<^verbatim>\<open>i\<close> flag use no class other than \<^verbatim>\<open>\s\<close> and \<^verbatim>\<open>.\<close>, which
  folding leaves as they are.
\<close>

definition upper :: "code_unit \<Rightarrow> code_unit" where
  "upper u = (if 97 \<le> u \<and> u \<le> 122 then u - 32 else u)"

fun atom_ok :: "bool \<Rightarrow> atom \<Rightarrow> code_unit \<Rightarrow> bool" where
  "atom_ok ic (Chr c) u = (if ic then upper u = upper (of_char c) else u = of_char c)"
| "atom_ok ic Dot u = (\<not> is_line_terminator u)"
| "atom_ok ic (Cls items) u = list_ex (\<lambda>i. item_has i u) items"
| "atom_ok ic (NCls items) u = (\<not> list_ex (\<lambda>i. item_has i u) items)"

definition run_length :: "bool \<Rightarrow> atom \<Rightarrow> jsstring \<Rightarrow> nat \<Rightarrow> nat" where
  "run_length ic a s p = length (takeWhile (atom_ok ic a) (drop p s))"

fun downto :: "nat \<Rightarrow> nat \<Rightarrow> nat list" where
  "downto lo 0 = (if lo = 0 then [0] else [])"
| "downto lo (Suc n) = (if lo \<le> Suc n then Suc n # downto lo n else [])"

type_synonym captures = "(nat \<times> nat \<times> nat) list"

text \<open>
  The backtracking matcher: \<open>rmatch ic r s p cs\<close> lists, in the order in which
  backtracking tries them, the end positions (with the captures made on the way) of the
  matches of \<open>r\<close> that start at position \<open>p\<close> of \<open>s\<close>. The match that
  \<^verbatim>\<open>exec\<close> reports is the first of the list.
\<close>

fun rmatch :: "bool \<Rightarrow> regex \<Rightarrow> jsstring \<Rightarrow> nat \<Rightarrow> captures \<Rightarrow> (nat \<times> captures) list" where
  "rmatch ic Empty s p cs = [(p, cs)]"
| "rmatch ic (Atom a) s p cs =
     (if p < length s \<and> atom_ok ic a (s ! p) then [(Suc p, cs)] else [])"
| "rmatch ic (Star a) s p cs = map (\<lambda>k. (p + k, cs)) (downto 0 (run_length ic a s p))"
| "rmatch ic (Plus a) s p cs = map (\<lambda>k. (p + k, cs)) (downto 1 (run_length ic a s p))"
| "rmatch ic (Seq r1 r2) s p cs =
     concat (map (\<lambda>qc. rmatch ic r2 s (fst qc) (snd qc)) (rmatch ic r1 s p cs))"
| "rmatch ic (Alt r1 r2) s p cs = rmatch ic r1 s p cs @ rmatch ic r2 s p cs"
| "rmatch ic (Group n r) s p cs =
     map (\<lambda>qc. (fst qc, (n, p, fst qc) # snd qc)) (rmatch ic r s p cs)"
| "rmatch ic (NegLookahead r) s p cs = (if rmatch ic r s p cs = [] then [(p, cs)] else [])"

record regexp =
  pattern :: regex
  ignoreCase :: bool
  global :: bool

record match =
  index :: nat
  endIndex :: nat
  groups :: captures

definition match_text :: "jsstring \<Rightarrow> match \<Rightarrow> jsstring" where
  "match_text s m = slice s (index m) (endIndex m)"

definition match_group :: "jsstring \<Rightarrow> match \<Rightarrow> nat \<Rightarrow> jsstring option" where
  "match_group s m n = (case map_of (groups m) n of None \<Rightarrow> None | Some (a, b) \<Rightarrow> Some (slice s a b))"

text \<open>
  The search of \<^verbatim>\<open>RegExp.prototype.exec\<close>: try every start position from \<open>i\<close> up to
  the length of the string (an empty match at the very end is possible).
\<close>

function match_from :: "regexp \<Rightarrow> jsstring \<Rightarrow> nat \<Rightarrow> match option" where
  "match_from re s i =
     (if length s < i then None
      else case rmatch (ignoreCase re) (pattern re) s i [] of
             [] \<Rightarrow> match_from re s (Suc i)
           | qc # _ \<Rightarrow> Some \<lparr>index = i, endIndex = fst qc, groups = snd qc\<rparr>)"
  by pat_completeness auto
termination
  by (relation "measure (\<lambda>(re, s, i). Suc (length s) - i)") auto

declare match_from.simps [simp del]

text \<open>
  \<^verbatim>\<open>exec\<close> with the regular expression's \<open>lastIndex\<close> made explicit: a global
  expression starts at \<open>lastIndex\<close>, stores the end of the match there, and resets it to
  \<open>0\<close> when nothing matches; without the \<^verbatim>\<open>g\<close> flag the search starts at \<open>0\<close> and
  \<open>lastIndex\<close> is left alone.
\<close>

definition regexp_exec :: "regexp \<Rightarrow> jsstring \<Rightarrow> nat \<Rightarrow> match option \<times> nat" where
  "regexp_exec re s lastIndex =
     (case match_from re s (if global re then lastIndex else 0) of
        None \<Rightarrow> (None, if global re then 0 else lastIndex)
      | Some m \<Rightarrow> (Some m, if global re then endIndex m else lastIndex))"

definition regexp_test :: "regexp \<Rightarrow> jsstring \<Rightarrow> nat \<Rightarrow> bool" where
  "regexp_test re s lastIndex = (fst (regexp_exec re s lastIndex) \<noteq> None)"

section \<open>The rule catalog\<close>

record rule =
  rule_id :: string
  rule_type :: string
  rule_title :: string
  rule_why :: string
  rule_fix :: string
  rule_severity :: string
  regex :: regexp
  suppressBuiltIns :: bool
  requiresMemoContext :: bool

definition SAFE_USESTATE_INITIALIZERS :: "jsstring list" where
  "SAFE_USESTATE_INITIALIZERS =
     map js [''Number'', ''String'', ''Boolean'', ''Object'', ''Array'', ''Date'']"

definition re_A001 :: regexp where
  "re_A001 = \<lparr>pattern = cat [str ''useEffect'', Star ws, chr CHR ''('', Star ws, chr CHR ''('',
       Star ws, chr CHR '')'', Star ws, str ''=>'', Star ws, chr CHR ''{'',
       Star (no CHR ''}''), chr CHR ''}'', Star ws, chr CHR '')''],
     ignoreCase = False, global = True\<rparr>"

definition re_A002 :: regexp where
  "re_A002 = \<lparr>pattern = cat [Group 1 (alt [str ''useMemo'', str ''useCallback'']), Star ws,
       chr CHR ''('', Star ws,
       Group 2 (cat [chr CHR ''('', Star (no CHR '')''), chr CHR '')'', Star ws, str ''=>'',
                     Star ws, chr CHR ''{'', Star (no CHR ''}''), chr CHR ''}'']),
       Star ws, chr CHR '')'',
       NegLookahead (cat [Star ws, chr CHR '','', Star ws, chr CHR ''['']) ],
     ignoreCase = False, global = True\<rparr>"

definition re_A003 :: regexp where
  "re_A003 = \<lparr>pattern = cat [str ''useState'', chr CHR ''('', Star ws,
       Group 1 (cat [Atom (Cls [CRange CHR ''a'' CHR ''z'', CRange CHR ''A'' CHR ''Z'',
                                CChar CHR ''_'', CChar CHR ''$'']),
                     Star (Cls [CRange CHR ''a'' CHR ''z'', CRange CHR ''A'' CHR ''Z'',
                                CRange CHR ''0'' CHR ''9'', CChar CHR ''_'', CChar CHR ''$''])]),
       Star ws, chr CHR '')''],
     ignoreCase = False, global = True\<rparr>"

definition re_B001 :: regexp where
  "re_B001 = \<lparr>pattern = cat [
       Group 1 (alt [cat [str ''on'', Atom (Cls [CRange CHR ''A'' CHR ''Z'']), Star (no CHR ''='')],
                     str ''onClick'', str ''onChange'']),
       chr CHR ''='', Star ws, chr CHR ''{'', Star ws, chr CHR ''('', Star (no CHR '')''),
       chr CHR '')'', Star ws, str ''=>'', Star ws, Star (no CHR ''}''), chr CHR ''}''],
     ignoreCase = False, global = True\<rparr>"

definition re_B002 :: regexp where
  "re_B002 = \<lparr>pattern = cat [
       Group 1 (alt [str ''config'', str ''options'', str ''data'', str ''items'', str ''settings'']),
       chr CHR ''='', Star ws, chr CHR ''{'', Star ws,
       Group 2 (alt [cat [chr CHR ''{'', Star (no CHR ''}''), chr CHR ''}''],
                     cat [chr CHR ''['', Star (no CHR '']''), chr CHR '']'']]),
       Star ws, chr CHR ''}''],
     ignoreCase = False, global = True\<rparr>"

definition re_B003 :: regexp where
  "re_B003 = \<lparr>pattern = cat [str ''key'', Star ws, chr CHR ''='', Star ws, chr CHR ''{'', Star ws,
       Group 1 (alt [str ''index'', str ''i'']), Star ws, chr CHR ''}''],
     ignoreCase = False, global = True\<rparr>"

definition re_C001 :: regexp where
  "re_C001 = \<lparr>pattern = cat [str ''<img'', Plus ws,
       NegLookahead (cat [Star Dot, str ''alt=''])],
     ignoreCase = True, global = True\<rparr>"

definition re_C002 :: regexp where
  "re_C002 = \<lparr>pattern = cat [chr CHR ''<'',
       Group 1 (alt [str ''input'', str ''textarea'', str ''select'']), Plus ws,
       NegLookahead (cat [Star Dot,
         Group 2 (alt [str ''id='', str ''aria-label='', str ''aria-labelledby=''])])],
     ignoreCase = True, global = True\<rparr>"

text \<open>The test for a memoized component, \<^verbatim>\<open>/React\.memo\s*\(/\<close>, has no flag.\<close>

definition re_memo :: regexp where
  "re_memo = \<lparr>pattern = cat [str ''React'', chr CHR ''.'', str ''memo'', Star ws, chr CHR ''(''],
     ignoreCase = False, global = False\<rparr>"

definition rule_A001 :: rule where
  \<open>rule_A001 = \<lparr>rule_id = ''A001'', rule_type = ''useEffect-missing-deps'',
     rule_title = ''Missing dependency array in useEffect'',
     rule_why = ''This effect runs after every render, which may cause unnecessary work or unintended behavior.'',
     rule_fix = ''Add a dependency array (`[]` or `[deps]`) to control when the effect runs.'',
     rule_severity = ''High'', regex = re_A001,
     suppressBuiltIns = False, requiresMemoContext = False\<rparr>\<close>

definition rule_A002 :: rule where
  \<open>rule_A002 = \<lparr>rule_id = ''A002'', rule_type = ''useMemo-useCallback-missing-deps'',
     rule_title = ''useMemo / useCallback missing dependency array'',
     rule_why = ''Using these hooks without a dependency array provides no memoization benefit.'',
     rule_fix = ''Always pass a dependency array. Remove the hook if memoization is unnecessary.'',
     rule_severity = ''Medium'', regex = re_A002,
     suppressBuiltIns = False, requiresMemoContext = False\<rparr>\<close>

definition rule_A003 :: rule where
  \<open>rule_A003 = \<lparr>rule_id = ''A003'', rule_type = ''useState-function-reference'',
     rule_title = ''useState initialized with function reference'',
     rule_why = ''Passing a function reference to useState stores the function itself as state. This is often unintentional.'',
     rule_fix = ''If you intend to compute an initial value, wrap the call: useState(() => computeValue()).'',
     rule_severity = ''Low'', regex = re_A003,
     suppressBuiltIns = True, requiresMemoContext = False\<rparr>\<close>

definition rule_B001A :: rule where
  \<open>rule_B001A = \<lparr>rule_id = ''B001A'', rule_type = ''inline-function-breaks-memoization'',
     rule_title = ''Inline function breaks memoization'',
     rule_why = ''This inline function is passed to a memoized component. A new function is created on every render, defeating React.memo.'',
     rule_fix = ''Extract the handler and memoize it using useCallback before passing it to the memoized component.'',
     rule_severity = ''High'', regex = re_B001,
     suppressBuiltIns = False, requiresMemoContext = True\<rparr>\<close>

definition rule_B001B :: rule where
  \<open>rule_B001B = \<lparr>rule_id = ''B001B'', rule_type = ''jsx-inline-arrow-function'',
     rule_title = ''Inline arrow function in JSX prop (context-dependent)'',
     rule_why = ''Inline arrow functions create a new function on every render. This is usually fine, but can cause unnecessary re-renders when passed to memoized or frequently re-rendered components.'',
     rule_fix = ''If this prop is passed to a memoized or frequently rendered child, consider extracting or memoizing the handler.'',
     rule_severity = ''Info'', regex = re_B001,
     suppressBuiltIns = False, requiresMemoContext = False\<rparr>\<close>

definition rule_B002 :: rule where
  \<open>rule_B002 = \<lparr>rule_id = ''B002'', rule_type = ''jsx-inline-object-literal'',
     rule_title = ''Inline object or array literal in JSX prop'',
     rule_why = ''New object or array references are created on every render, causing unnecessary re-renders.'',
     rule_fix = ''Move the object/array outside the component or memoize it with useMemo.'',
     rule_severity = ''Medium'', regex = re_B002,
     suppressBuiltIns = False, requiresMemoContext = False\<rparr>\<close>

definition rule_B003 :: rule where
  \<open>rule_B003 = \<lparr>rule_id = ''B003'', rule_type = ''jsx-array-index-key'',
     rule_title = ''Using array index as key'',
     rule_why = ''Using index as key can cause incorrect UI updates when list order changes.'',
     rule_fix = ''Use a stable, unique identifier from the data instead.'',
     rule_severity = ''High'', regex = re_B003,
     suppressBuiltIns = False, requiresMemoContext = False\<rparr>\<close>

definition rule_C001 :: rule where
  \<open>rule_C001 = \<lparr>rule_id = ''C001'', rule_type = ''a11y-missing-alt'',
     rule_title = ''Image missing alt attribute'',
     rule_why = ''Missing alt text harms accessibility for screen reader users.'',
     rule_fix = ''Add a meaningful alt attribute or use alt="" for decorative images.'',
     rule_severity = ''High'', regex = re_C001,
     suppressBuiltIns = False, requiresMemoContext = False\<rparr>\<close>

definition rule_C002 :: rule where
  \<open>rule_C002 = \<lparr>rule_id = ''C002'', rule_type = ''a11y-missing-label'',
     rule_title = ''Form control missing label'',
     rule_why = ''Form elements without labels are inaccessible to assistive technologies.'',
     rule_fix = ''Add a <label>, aria-label, or aria-labelledby.'',
     rule_severity = ''Medium'', regex = re_C002,
     suppressBuiltIns = False, requiresMemoContext = False\<rparr>\<close>

definition ANALYSIS_RULES :: "rule list" where
  "ANALYSIS_RULES = [rule_A001, rule_A002, rule_A003, rule_B001A, rule_B001B,
     rule_B002, rule_B003, rule_C001, rule_C002]"

section \<open>The analysis\<close>

record occurrence =
  lineNumber :: nat
  snippet :: jsstring
  charStart :: nat
  charEnd :: nat

record issue =
  issue_id :: string
  issue_type :: string
  issue_title :: string
  issue_why :: string
  issue_fix :: string
  issue_severity :: string
  occurrence :: occurrence

text \<open>
  A report has the fields \<open>timestamp\<close> and \<open>status\<close> and either \<open>error\<close> or
  \<open>totalIssues\<close> and \<open>issues\<close>; a field that the object does not have is \<open>None\<close>.
\<close>

record report =
  timestamp :: string
  status :: string
  error :: "string option"
  totalIssues :: "nat option"
  issues :: "issue list option"

text \<open>
  The regular expressions of the catalog are objects shared by all calls: the state that
  a call finds and leaves behind is the \<open>lastIndex\<close> of each rule's expression.
\<close>

type_synonym cursors = "string \<Rightarrow> nat"

definition count_newlines :: "jsstring \<Rightarrow> nat" where
  "count_newlines s = length (filter (\<lambda>u. u = 10) s)"

definition has_initializer :: "jsstring option \<Rightarrow> bool" where
  "has_initializer v = (case v of None \<Rightarrow> False | Some n \<Rightarrow> n \<in> set SAFE_USESTATE_INITIALIZERS)"

definition suppressed :: "rule \<Rightarrow> jsstring \<Rightarrow> match \<Rightarrow> bool" where
  "suppressed rule code m =
     (let initializerName = match_group code m 1
      in rule_id rule = ''A003'' \<and> suppressBuiltIns rule \<and> has_initializer initializerName)"

definition make_issue :: "rule \<Rightarrow> jsstring \<Rightarrow> match \<Rightarrow> issue" where
  "make_issue rule code m =
     (let matchText = trim (match_text code m);
          startIndex = index m;
          lineNumber = count_newlines (slice code 0 startIndex) + 1
      in \<lparr>issue_id = rule_id rule, issue_type = rule_type rule, issue_title = rule_title rule,
          issue_why = rule_why rule, issue_fix = rule_fix rule,
          issue_severity = rule_severity rule,
          occurrence = \<lparr>lineNumber = lineNumber, snippet = matchText,
                        charStart = startIndex, charEnd = startIndex + length matchText\<rparr>\<rparr>)"

text \<open>
  The loop \<^verbatim>\<open>while ((match = rule.regex.exec(code)) !== null)\<close>. Nothing in the loop
  moves \<open>lastIndex\<close> but \<open>exec\<close> itself, so the loop returns only if \<open>exec\<close>
  eventually answers \<open>null\<close>: not returning is the value \<open>None\<close>.
\<close>

partial_function (option) scan :: "rule \<Rightarrow> jsstring \<Rightarrow> nat \<Rightarrow> issue list \<Rightarrow> (issue list \<times> nat) option" where
  "scan rule code lastIndex acc =
     (case regexp_exec (regex rule) code lastIndex of
        (None, li) \<Rightarrow> Some (acc, li)
      | (Some m, li) \<Rightarrow>
          if suppressed rule code m then scan rule code li acc
          else scan rule code li (acc @ [make_issue rule code m]))"

declare scan.simps [code]

definition apply_rule :: "bool \<Rightarrow> jsstring \<Rightarrow> rule \<Rightarrow> issue list \<times> cursors \<Rightarrow> (issue list \<times> cursors) option" where
  "apply_rule hasMemoizedComponent code rule st =
     (let cur = (snd st)(rule_id rule := 0)
      in if requiresMemoContext rule \<and> \<not> hasMemoizedComponent then Some (fst st, cur)
         else case scan rule code (cur (rule_id rule)) (fst st) of
                None \<Rightarrow> None
              | Some (acc, li) \<Rightarrow> Some (acc, cur(rule_id rule := li)))"

fun forEach :: "bool \<Rightarrow> jsstring \<Rightarrow> rule list \<Rightarrow> issue list \<times> cursors \<Rightarrow> (issue list \<times> cursors) option" where
  "forEach h code [] st = Some st"
| "forEach h code (rule # rules) st =
     (case apply_rule h code rule st of None \<Rightarrow> None | Some st' \<Rightarrow> forEach h code rules st')"

definition severityRank :: "string \<Rightarrow> int option" where
  "severityRank = map_of [(''High'', 3), (''Medium'', 2), (''Low'', 1), (''Info'', 0)]"

text \<open>
  The comparison function of the final sort. A severity outside the table would make the
  difference of the ranks \<^verbatim>\<open>NaN\<close>, which is falsy as \<open>0\<close> is, so that \<^verbatim>\<open>||\<close> goes on
  to the line numbers.
\<close>

definition compare_issues :: "issue \<Rightarrow> issue \<Rightarrow> int" where
  "compare_issues a b =
     (let byLine = int (lineNumber (occurrence a)) - int (lineNumber (occurrence b))
      in case (severityRank (issue_severity b), severityRank (issue_severity a)) of
           (Some rb, Some ra) \<Rightarrow> if rb - ra \<noteq> 0 then rb - ra else byLine
         | _ \<Rightarrow> byLine)"

text \<open>
  \<^verbatim>\<open>Array.prototype.sort\<close> is a stable sort: with a consistent comparison function its
  result is the stable arrangement, computed here by insertion.
\<close>

fun insert_issue :: "issue \<Rightarrow> issue list \<Rightarrow> issue list" where
  "insert_issue a [] = [a]"
| "insert_issue a (b # bs) =
     (if compare_issues a b \<le> 0 then a # b # bs else b # insert_issue a bs)"

definition sort_issues :: "issue list \<Rightarrow> issue list" where
  "sort_issues xs = foldr insert_issue xs []"

text \<open>
  \<open>analyze cur now code\<close>: \<open>cur\<close> is the state of the shared regular expressions
  when the call starts, \<open>now\<close> the reading of the clock that becomes the timestamp.
\<close>

definition analyze :: "cursors \<Rightarrow> string \<Rightarrow> jsvalue \<Rightarrow> (report \<times> cursors) option" where
  "analyze cur now code =
     (if \<not> truthy code \<or> typeof code \<noteq> ''string'' then
        Some (\<lparr>timestamp = now, status = ''Error'',
               error = Some ''Invalid or missing code provided.'',
               totalIssues = None, issues = None\<rparr>, cur)
      else
        let text = string_of code;
            hasMemoizedComponent = regexp_test re_memo text 0
        in case forEach hasMemoizedComponent text ANALYSIS_RULES ([], cur) of
             None \<Rightarrow> None
           | Some (found, cur') \<Rightarrow>
               Some (\<lparr>timestamp = now,
                      status = (if length found \<noteq> 0 then ''Issues Found'' else ''Clean''),
                      error = None,
                      totalIssues = Some (length found),
                      issues = Some (sort_issues found)\<rparr>, cur'))"

section \<open>Observations and specification functions\<close>

text \<open>The state of a freshly loaded module: every \<open>lastIndex\<close> is \<open>0\<close>.\<close>

definition fresh_cursors :: cursors where
  "fresh_cursors = (\<lambda>_. 0)"

text \<open>The issues sequence of the report of a call (empty when the report has none).\<close>

definition report_issues :: "(report \<times> cursors) option \<Rightarrow> issue list" where
  "report_issues res =
     (case res of None \<Rightarrow> []
      | Some rc \<Rightarrow> (case issues (fst rc) of None \<Rightarrow> [] | Some xs \<Rightarrow> xs))"

text \<open>
  The successive answers of \<open>exec\<close> in the loop, for a global expression whose matches
  are never empty: each search starts where the previous match ended.
\<close>

function matches_from :: "regexp \<Rightarrow> jsstring \<Rightarrow> nat \<Rightarrow> match list" where
  "matches_from re s i =
     (case match_from re s i of
        None \<Rightarrow> []
      | Some m \<Rightarrow>
          if i < endIndex m \<and> endIndex m \<le> length s then m # matches_from re s (endIndex m)
          else [m])"
  by pat_completeness auto
termination
  by (relation "measure (\<lambda>(re, s, i). length s - i)") auto

declare matches_from.simps [simp del]

text \<open>The state that a returning call leaves behind.\<close>

definition reset_cursors :: "rule list \<Rightarrow> cursors \<Rightarrow> cursors" where
  "reset_cursors rules cur = (\<lambda>k. if k \<in> set (map rule_id rules) then 0 else cur k)"

text \<open>The issues that one rule pushes, and all pushed issues in the order of the pushes.\<close>

definition rule_issues :: "bool \<Rightarrow> jsstring \<Rightarrow> rule \<Rightarrow> issue list" where
  "rule_issues h code rule =
     (if requiresMemoContext rule \<and> \<not> h then []
      else map (make_issue rule code)
             (filter (\<lambda>m. \<not> suppressed rule code m) (matches_from (regex rule) code 0)))"

definition collected :: "jsstring \<Rightarrow> issue list" where
  "collected code = concat (map (rule_issues (regexp_test re_memo code 0) code) ANALYSIS_RULES)"

text \<open>
  A pattern is \<open>leading\<close> when each of its matches begins with a literal character that
  is not white space; such a pattern matches no empty string.
\<close>

fun leading :: "regex \<Rightarrow> bool" where
  "leading (Atom (Chr c)) = (\<not> is_space (of_char c) \<and> \<not> is_space (upper (of_char c)))"
| "leading (Seq r1 r2) = leading r1"
| "leading (Alt r1 r2) = (leading r1 \<and> leading r2)"
| "leading (Group n r) = leading r"
| "leading _ = False"

text \<open>The sort key: the rank of the severity, then the line number.\<close>

definition sort_key_of :: "issue \<Rightarrow> int option \<times> nat" where
  "sort_key_of a = (severityRank (issue_severity a), lineNumber (occurrence a))"

definition rank :: "issue \<Rightarrow> int" where
  "rank a = (case severityRank (issue_severity a) of None \<Rightarrow> 0 | Some r \<Rightarrow> r)"

text \<open>
  The order of the report: higher rank first, and within a rank the smaller line number
  first.
\<close>

definition precedes :: "issue \<Rightarrow> issue \<Rightarrow> bool" where
  "precedes a b =
     (rank b < rank a \<or>
      (rank a = rank b \<and> lineNumber (occurrence a) \<le> lineNumber (occurrence b)))"



definition error_report :: "string \<Rightarrow> report" where
  "error_report now = \<lparr>timestamp = now, status = ''Error'',
     error = Some ''Invalid or missing code provided.'', totalIssues = None, issues = None\<rparr>"

definition issues_report :: "string \<Rightarrow> issue list \<Rightarrow> report" where
  "issues_report now found = \<lparr>timestamp = now,
     status = (if length found \<noteq> 0 then ''Issues Found'' else ''Clean''),
     error = None, totalIssues = Some (length found), issues = Some (sort_issues found)\<rparr>"

section \<open>The matcher and the scan loop\<close>

lemma set_downto: "set (downto lo n) = {lo..n}"
  by (induction n) auto

lemma run_length_le: "run_length ic a s p \<le> length s - p"
proof -
  have "length (takeWhile (atom_ok ic a) (drop p s)) \<le> length (drop p s)"
    by (rule length_takeWhile_le)
  then show ?thesis by (simp add: run_length_def)
qed

lemma rmatch_mono: "(e, cs') \<in> set (rmatch ic r s p cs) \<Longrightarrow> p \<le> e"
proof (induction r arbitrary: p cs e cs')
  case (Seq r1 r2)
  then obtain q c where "(q, c) \<in> set (rmatch ic r1 s p cs)" "(e, cs') \<in> set (rmatch ic r2 s q c)"
    by auto
  with Seq.IH show ?case by (meson le_trans)
qed (auto simp: set_downto split: if_splits)

lemma rmatch_bound: "(e, cs') \<in> set (rmatch ic r s p cs) \<Longrightarrow> p \<le> length s \<Longrightarrow> e \<le> length s"
proof (induction r arbitrary: p cs e cs')
  case (Seq r1 r2)
  then obtain q c where "(q, c) \<in> set (rmatch ic r1 s p cs)" "(e, cs') \<in> set (rmatch ic r2 s q c)"
    by auto
  with Seq show ?case by blast
next
  case (Star a)
  then obtain k where "e = p + k" "k \<le> run_length ic a s p" by (auto simp: set_downto)
  with run_length_le [of ic a s p] Star.prems(2) show ?case by linarith
next
  case (Plus a)
  then obtain k where "e = p + k" "k \<le> run_length ic a s p" by (auto simp: set_downto)
  with run_length_le [of ic a s p] Plus.prems(2) show ?case by linarith
qed (auto split: if_splits)

lemma upper_space [simp]: "is_space u \<Longrightarrow> upper u = u"
  by (auto simp: is_space_def white_space_def upper_def)

lemma rmatch_leading:
  "leading r \<Longrightarrow> (e, cs') \<in> set (rmatch ic r s p cs) \<Longrightarrow> p < length s \<and> \<not> is_space (s ! p) \<and> p < e"
proof (induction r arbitrary: p cs e cs' rule: leading.induct)
  case (1 c)
  then show ?case by (auto split: if_splits simp: upper_space)
next
  case (2 r1 r2)
  then obtain q c where q: "(q, c) \<in> set (rmatch ic r1 s p cs)" "(e, cs') \<in> set (rmatch ic r2 s q c)"
    by auto
  from "2.IH" [OF _ q(1)] "2.prems"(1) have "p < length s \<and> \<not> is_space (s ! p) \<and> p < q" by simp
  moreover from rmatch_mono [OF q(2)] have "q \<le> e" .
  ultimately show ?case by auto
qed auto

lemma match_from_Some:
  "match_from re s i = Some m \<Longrightarrow>
     i \<le> index m \<and> index m \<le> length s \<and>
     (endIndex m, groups m) \<in> set (rmatch (ignoreCase re) (pattern re) s (index m) [])"
proof (induction re s i rule: match_from.induct)
  case (1 re s i)
  show ?case
  proof (cases "rmatch (ignoreCase re) (pattern re) s i []")
    case Nil
    with "1.prems" have le: "\<not> length s < i" and rec: "match_from re s (Suc i) = Some m"
      by (auto simp: match_from.simps [of re s i] split: if_splits)
    from "1.IH" [OF le Nil rec] show ?thesis by simp
  next
    case (Cons qc rest)
    with "1.prems" have "\<not> length s < i" "m = \<lparr>index = i, endIndex = fst qc, groups = snd qc\<rparr>"
      by (auto simp: match_from.simps [of re s i] split: if_splits)
    with Cons show ?thesis by simp
  qed
qed

lemma match_from_bounds:
  assumes "match_from re s i = Some m"
  shows "i \<le> index m" and "index m \<le> endIndex m" and "endIndex m \<le> length s"
proof -
  from match_from_Some [OF assms]
  have a: "i \<le> index m" and b: "index m \<le> length s"
    and c: "(endIndex m, groups m) \<in> set (rmatch (ignoreCase re) (pattern re) s (index m) [])"
    by simp_all
  show "i \<le> index m" by (rule a)
  show "index m \<le> endIndex m" by (rule rmatch_mono [OF c])
  show "endIndex m \<le> length s" by (rule rmatch_bound [OF c b])
qed

lemma match_from_leading:
  assumes "match_from re s i = Some m" and "leading (pattern re)"
  shows "index m < endIndex m" and "index m < length s" and "\<not> is_space (s ! index m)"
  using rmatch_leading [OF assms(2)] match_from_Some [OF assms(1)] by blast+

lemma match_from_blank:
  assumes "leading (pattern re)" and "\<forall>u \<in> set s. is_space u"
  shows "match_from re s i = None"
proof (cases "match_from re s i")
  case (Some m)
  from match_from_leading [OF Some assms(1)] assms(2) show ?thesis
    using nth_mem [of "index m" s] by blast
qed simp

lemma scan_total:
  assumes g: "global (regex rule)" and l: "leading (pattern (regex rule))"
  shows "scan rule code i acc =
     Some (acc @ map (make_issue rule code)
                   (filter (\<lambda>m. \<not> suppressed rule code m) (matches_from (regex rule) code i)), 0)"
proof (induction "length code - i" arbitrary: i acc rule: less_induct)
  case less
  show ?case
  proof (cases "match_from (regex rule) code i")
    case None
    then show ?thesis
      by (subst scan.simps, subst matches_from.simps) (simp add: regexp_exec_def g)
  next
    case (Some m)
    from match_from_bounds [OF Some] match_from_leading [OF Some l]
    have adv: "i < endIndex m" "endIndex m \<le> length code" by simp_all
    then have dec: "length code - endIndex m < length code - i" by simp
    have mf: "matches_from (regex rule) code i = m # matches_from (regex rule) code (endIndex m)"
      by (subst matches_from.simps) (simp add: Some adv)
    have ex: "regexp_exec (regex rule) code i = (Some m, endIndex m)"
      by (simp add: regexp_exec_def g Some)
    show ?thesis
      by (subst scan.simps) (simp add: ex mf less [OF dec])
  qed
qed


text \<open>\<open>matches_from\<close> lists the answers of \<open>exec\<close> in the loop.\<close>

lemma matches_from_exec:
  assumes "global re" and "leading (pattern re)"
  shows "matches_from re s i =
     (case regexp_exec re s i of (None, li) \<Rightarrow> [] | (Some m, li) \<Rightarrow> m # matches_from re s li)"
proof (cases "match_from re s i")
  case None
  then show ?thesis by (simp add: matches_from.simps [of re s i] regexp_exec_def assms(1))
next
  case (Some m)
  from match_from_bounds [OF Some] match_from_leading [OF Some assms(2)]
  have "i < endIndex m \<and> endIndex m \<le> length s" by simp
  then show ?thesis
    by (simp add: matches_from.simps [of re s i] regexp_exec_def Some assms(1))
qed

lemma apply_rule_total:
  assumes "global (regex rule)" and "leading (pattern (regex rule))"
  shows "apply_rule h code rule (acc, cur) =
     Some (acc @ rule_issues h code rule, cur(rule_id rule := 0))"
  by (simp add: apply_rule_def rule_issues_def scan_total [OF assms] Let_def)

lemma reset_cursors_Cons:
  "reset_cursors rules (cur(rule_id r := 0)) = reset_cursors (r # rules) cur"
  by (rule ext) (simp add: reset_cursors_def)

lemma forEach_total:
  assumes "\<forall>r \<in> set rules. global (regex r) \<and> leading (pattern (regex r))"
  shows "forEach h code rules (acc, cur) =
     Some (acc @ concat (map (rule_issues h code) rules), reset_cursors rules cur)"
  using assms
proof (induction rules arbitrary: acc cur)
  case Nil
  show ?case by (simp add: reset_cursors_def)
next
  case (Cons r rules)
  then have r: "global (regex r)" "leading (pattern (regex r))"
    and rest: "\<forall>r \<in> set rules. global (regex r) \<and> leading (pattern (regex r))" by simp_all
  show ?case
    by (simp only: forEach.simps apply_rule_total [OF r] option.case Cons.IH [OF rest]
          reset_cursors_Cons) simp
qed

lemmas regex_defs = re_A001_def re_A002_def re_A003_def re_B001_def re_B002_def re_B003_def
  re_C001_def re_C002_def
lemmas rule_defs = rule_A001_def rule_A002_def rule_A003_def rule_B001A_def rule_B001B_def
  rule_B002_def rule_B003_def rule_C001_def rule_C002_def

lemma catalog_patterns:
  "\<forall>r \<in> set ANALYSIS_RULES. global (regex r) \<and> leading (pattern (regex r))"
  by (simp add: ANALYSIS_RULES_def rule_defs regex_defs chr_def is_space_def white_space_def upper_def)

lemma analyze_string:
  assumes "s \<noteq> []"
  shows "analyze cur now (JString s) =
     Some (issues_report now (collected s), reset_cursors ANALYSIS_RULES cur)"
  using assms
  by (simp add: analyze_def forEach_total [OF catalog_patterns] collected_def issues_report_def Let_def)

subsection \<open>The sort\<close>

lemma compare_issues_same_key: "sort_key_of a = sort_key_of b \<Longrightarrow> compare_issues a b = 0"
  by (auto simp: compare_issues_def sort_key_of_def split: option.splits)

lemma filter_insert_issue:
  "filter (\<lambda>x. sort_key_of x = k) (insert_issue a bs) = filter (\<lambda>x. sort_key_of x = k) (a # bs)"
proof (induction bs)
  case Nil
  show ?case by simp
next
  case (Cons b bs)
  show ?case
  proof (cases "compare_issues a b \<le> 0")
    case True
    then show ?thesis by simp
  next
    case False
    then have "sort_key_of a \<noteq> sort_key_of b"
      using compare_issues_same_key [of a b] by auto
    with False Cons.IH show ?thesis by auto
  qed
qed

lemma sort_issues_stable:
  "filter (\<lambda>x. sort_key_of x = k) (sort_issues xs) = filter (\<lambda>x. sort_key_of x = k) xs"
proof (induction xs)
  case Nil
  show ?case by (simp add: sort_issues_def)
next
  case (Cons a xs)
  have "sort_issues (a # xs) = insert_issue a (sort_issues xs)"
    by (simp add: sort_issues_def)
  with Cons.IH show ?case by (simp add: filter_insert_issue)
qed

lemma set_insert_issue: "set (insert_issue a bs) = insert a (set bs)"
  by (induction bs) auto

lemma set_sort_issues: "set (sort_issues xs) = set xs"
  by (induction xs) (simp_all add: sort_issues_def set_insert_issue)

lemma length_insert_issue: "length (insert_issue a bs) = Suc (length bs)"
  by (induction bs) auto

lemma length_sort_issues: "length (sort_issues xs) = length xs"
  by (induction xs) (simp_all add: sort_issues_def length_insert_issue)

lemma compare_issues_precedes:
  assumes "severityRank (issue_severity a) \<noteq> None" and "severityRank (issue_severity b) \<noteq> None"
  shows "(compare_issues a b \<le> 0) = precedes a b"
  using assms by (auto simp: compare_issues_def precedes_def rank_def split: if_splits)

lemma precedes_trans: "precedes a b \<Longrightarrow> precedes b c \<Longrightarrow> precedes a c"
  by (auto simp: precedes_def)

lemma precedes_total: "\<not> precedes a b \<Longrightarrow> precedes b a"
  by (auto simp: precedes_def)

lemma sorted_insert_issue:
  assumes "\<forall>x \<in> set (a # bs). severityRank (issue_severity x) \<noteq> None"
    and "sorted_wrt precedes bs"
  shows "sorted_wrt precedes (insert_issue a bs)"
  using assms
proof (induction bs)
  case Nil
  show ?case by simp
next
  case (Cons b bs)
  have ab: "(compare_issues a b \<le> 0) = precedes a b"
    using Cons.prems(1) by (intro compare_issues_precedes) simp_all
  show ?case
  proof (cases "precedes a b")
    case True
    with Cons.prems(2) have "\<forall>x \<in> set bs. precedes a x"
      by (auto intro: precedes_trans)
    with True Cons.prems(2) ab show ?thesis by simp
  next
    case False
    then have ba: "precedes b a" by (rule precedes_total)
    from Cons have "sorted_wrt precedes (insert_issue a bs)" by simp
    with False ab ba Cons.prems(2) show ?thesis
      by (simp add: set_insert_issue)
  qed
qed

lemma sorted_sort_issues:
  assumes "\<forall>x \<in> set xs. severityRank (issue_severity x) \<noteq> None"
  shows "sorted_wrt precedes (sort_issues xs)"
  using assms
proof (induction xs)
  case Nil
  show ?case by (simp add: sort_issues_def)
next
  case (Cons a xs)
  have eq: "sort_issues (a # xs) = insert_issue a (sort_issues xs)"
    by (simp add: sort_issues_def)
  from Cons have "sorted_wrt precedes (sort_issues xs)" by simp
  moreover from Cons.prems have "\<forall>x \<in> set (a # sort_issues xs). severityRank (issue_severity x) \<noteq> None"
    by (simp add: set_sort_issues)
  ultimately show ?case unfolding eq by (intro sorted_insert_issue)
qed

subsection \<open>The matches of a rule\<close>

lemma matches_from_elem:
  "leading (pattern re) \<Longrightarrow> m \<in> set (matches_from re s i) \<Longrightarrow>
     i \<le> index m \<and> index m < endIndex m \<and> endIndex m \<le> length s \<and>
     \<not> is_space (s ! index m) \<and>
     (endIndex m, groups m) \<in> set (rmatch (ignoreCase re) (pattern re) s (index m) [])"
proof (induction re s i rule: matches_from.induct)
  case (1 re s i)
  show ?case
  proof (cases "match_from re s i")
    case None
    with "1.prems" show ?thesis by (simp add: matches_from.simps [of re s i])
  next
    case (Some m')
    note b = match_from_bounds [OF Some] and l = match_from_leading [OF Some "1.prems"(1)]
    have adv: "i < endIndex m' \<and> endIndex m' \<le> length s"
      using b l by simp
    from "1.prems"(2) have "m = m' \<or> m \<in> set (matches_from re s (endIndex m'))"
      by (simp add: matches_from.simps [of re s i] Some adv)
    then show ?thesis
    proof
      assume "m = m'"
      with b l match_from_Some [OF Some] show ?thesis by simp
    next
      assume "m \<in> set (matches_from re s (endIndex m'))"
      from "1.IH" [OF Some adv "1.prems"(1) this] adv show ?thesis by simp
    qed
  qed
qed


lemma trim_empty: "(trim s = []) = (\<forall>u \<in> set s. is_space u)"
proof
  assume "trim s = []"
  then have all: "\<forall>u \<in> set (dropWhile is_space s). is_space u"
    unfolding trim_def rev_is_Nil_conv dropWhile_eq_Nil_conv set_rev .
  have "dropWhile is_space s = []"
  proof (rule ccontr)
    assume ne: "dropWhile is_space s \<noteq> []"
    then have "\<not> is_space (hd (dropWhile is_space s))" by (rule hd_dropWhile)
    moreover from ne have "hd (dropWhile is_space s) \<in> set (dropWhile is_space s)" by simp
    ultimately show False using all by blast
  qed
  then show "\<forall>u \<in> set s. is_space u" unfolding dropWhile_eq_Nil_conv .
next
  assume "\<forall>u \<in> set s. is_space u"
  then have "dropWhile is_space s = []" by (simp add: dropWhile_eq_Nil_conv)
  then show "trim s = []" by (simp only: trim_def rev.simps dropWhile.simps)
qed

lemma matches_from_blank:
  assumes "leading (pattern re)" and "\<forall>u \<in> set s. is_space u"
  shows "matches_from re s i = []"
  by (simp add: matches_from.simps [of re s i] match_from_blank [OF assms])

lemma collected_blank:
  assumes "\<forall>u \<in> set s. is_space u"
  shows "collected s = []"
proof -
  have "rule_issues h s r = []" if "r \<in> set ANALYSIS_RULES" for h r
    using catalog_patterns that by (simp add: rule_issues_def matches_from_blank assms)
  then show ?thesis by (simp add: collected_def)
qed

lemma collected_issue:
  assumes "a \<in> set (collected s)"
  shows "\<exists>r \<in> set ANALYSIS_RULES. \<exists>m \<in> set (matches_from (regex r) s 0).
           a = make_issue r s m \<and> \<not> suppressed r s m \<and>
           (requiresMemoContext r \<longrightarrow> regexp_test re_memo s 0)"
  using assms by (auto simp: collected_def rule_issues_def split: if_splits)

lemma catalog_severities:
  "\<forall>r \<in> set ANALYSIS_RULES. rule_severity r \<in> {''High'', ''Medium'', ''Low'', ''Info''}"
  by (simp add: ANALYSIS_RULES_def rule_defs)

subsection \<open>The issues of a report\<close>

lemma collected_severity:
  assumes "a \<in> set (collected s)"
  shows "issue_severity a \<in> {''High'', ''Medium'', ''Low'', ''Info''}"
proof -
  from collected_issue [OF assms] obtain r m
    where r: "r \<in> set ANALYSIS_RULES" and a: "a = make_issue r s m" by blast
  from a have "issue_severity a = rule_severity r" by (simp add: make_issue_def Let_def)
  with catalog_severities r show ?thesis by simp
qed

lemma collected_ranked:
  assumes "a \<in> set (collected s)"
  shows "severityRank (issue_severity a) = Some (rank a)"
  using collected_severity [OF assms] by (auto simp: severityRank_def rank_def)

lemma analyze_empty:
  "analyze cur now (JString []) = Some (error_report now, cur)"
  by (simp add: analyze_def error_report_def)

lemma report_issues_analyze:
  "report_issues (analyze cur now (JString s)) = sort_issues (collected s)"
proof (cases "s = []")
  case True
  have "match_from re [] i = None" if "leading (pattern re)" for re i
    using match_from_blank [OF that, of "[]" i] by simp
  then have "matches_from re [] 0 = []" if "leading (pattern re)" for re
    using that by (simp add: matches_from.simps [of re "[]" 0])
  then have "rule_issues h [] r = []" if "r \<in> set ANALYSIS_RULES" for h r
    using catalog_patterns that by (simp add: rule_issues_def)
  then have "collected [] = []" by (simp add: collected_def)
  with True show ?thesis
    by (simp add: analyze_empty report_issues_def error_report_def sort_issues_def)
next
  case False
  then show ?thesis by (simp add: analyze_string report_issues_def issues_report_def)
qed

lemma analyze_issues_Some:
  assumes "analyze cur now (JString s) = Some (rep, cur')" and "issues rep = Some xs"
  shows "s \<noteq> []" and "rep = issues_report now (collected s)" and "xs = sort_issues (collected s)"
    and "cur' = reset_cursors ANALYSIS_RULES cur"
proof -
  show ne: "s \<noteq> []"
  proof
    assume "s = []"
    with assms show False by (auto simp: analyze_empty error_report_def)
  qed
  from analyze_string [OF ne, of cur now] assms(1)
  show rep: "rep = issues_report now (collected s)" and "cur' = reset_cursors ANALYSIS_RULES cur"
    by simp_all
  with assms(2) show "xs = sort_issues (collected s)" by (simp add: issues_report_def)
qed

lemma analyze_state_independent:
  "map_option (\<lambda>rc. (fst rc)\<lparr>timestamp := t\<rparr>) (analyze cur1 now1 v) =
   map_option (\<lambda>rc. (fst rc)\<lparr>timestamp := t\<rparr>) (analyze cur2 now2 v)"
proof (cases "\<exists>s. v = JString s \<and> s \<noteq> []")
  case True
  then show ?thesis by (auto simp: analyze_string issues_report_def)
next
  case False
  then have "\<not> truthy v \<or> typeof v \<noteq> ''string''" by (cases v) auto
  then show ?thesis by (simp add: analyze_def)
qed

lemma catalog_B001A:
  "\<forall>r \<in> set ANALYSIS_RULES.
     rule_id r = ''B001A'' \<or> rule_type r = ''inline-function-breaks-memoization'' \<longrightarrow>
     requiresMemoContext r"
  by (simp add: ANALYSIS_RULES_def rule_defs)

lemma make_issue_fields:
  "issue_id (make_issue r s m) = rule_id r"
  "issue_type (make_issue r s m) = rule_type r"
  "issue_severity (make_issue r s m) = rule_severity r"
  "lineNumber (occurrence (make_issue r s m)) = count_newlines (slice s 0 (index m)) + 1"
  "snippet (occurrence (make_issue r s m)) = trim (match_text s m)"
  "charStart (occurrence (make_issue r s m)) = index m"
  "charEnd (occurrence (make_issue r s m)) = index m + length (trim (match_text s m))"
  by (simp_all add: make_issue_def Let_def)

lemma matches_from_first:
  assumes "match_from re s 0 = Some m"
  shows "m \<in> set (matches_from re s 0)"
  using assms by (simp add: matches_from.simps [of re s 0])

lemma length_filter_insert_issue:
  "length (filter P (insert_issue a bs)) = length (filter P (a # bs))"
  by (induction bs) auto

lemma length_filter_sort_issues:
  "length (filter P (sort_issues xs)) = length (filter P xs)"
proof (induction xs)
  case Nil
  show ?case by (simp add: sort_issues_def)
next
  case (Cons a xs)
  have "sort_issues (a # xs) = insert_issue a (sort_issues xs)"
    by (simp add: sort_issues_def)
  with Cons.IH show ?case by (simp add: length_filter_insert_issue)
qed

lemma rule_ids:
  "rule_id rule_A001 = ''A001''" "rule_id rule_A002 = ''A002''" "rule_id rule_A003 = ''A003''"
  "rule_id rule_B001A = ''B001A''" "rule_id rule_B001B = ''B001B''" "rule_id rule_B002 = ''B002''"
  "rule_id rule_B003 = ''B003''" "rule_id rule_C001 = ''C001''" "rule_id rule_C002 = ''C002''"
  by (simp_all add: rule_defs)

lemma filter_rule_issues:
  "filter (\<lambda>a. issue_id a = k) (rule_issues h s r) = (if rule_id r = k then rule_issues h s r else [])"
  by (simp add: rule_issues_def filter_map o_def make_issue_fields)

lemma rule_issues_A003:
  "rule_issues h s rule_A003 =
     map (make_issue rule_A003 s)
       (filter (\<lambda>m. \<not> has_initializer (match_group s m 1)) (matches_from (regex rule_A003) s 0))"
  by (simp add: rule_issues_def suppressed_def rule_A003_def)

lemma filter_collected_A003:
  "filter (\<lambda>a. issue_id a = ''A003'') (collected s) =
     map (make_issue rule_A003 s)
       (filter (\<lambda>m. \<not> has_initializer (match_group s m 1)) (matches_from (regex rule_A003) s 0))"
proof -
  have "filter (\<lambda>a. issue_id a = ''A003'') (collected s) =
      rule_issues (regexp_test re_memo s 0) s rule_A003"
    unfolding collected_def ANALYSIS_RULES_def
    by (simp add: filter_rule_issues rule_ids)
  then show ?thesis by (simp add: rule_issues_A003)
qed

lemma trim_prefix:
  assumes "x \<noteq> []" and "\<not> is_space (hd x)"
  shows "take (length (trim x)) x = trim x"
proof -
  from assms have "dropWhile is_space x = x" by (cases x) simp_all
  then have t: "trim x = rev (dropWhile is_space (rev x))" by (simp add: trim_def)
  have "rev (dropWhile is_space (rev x)) @ rev (takeWhile is_space (rev x)) =
      rev (takeWhile is_space (rev x) @ dropWhile is_space (rev x))"
    by (simp only: rev_append)
  also have "\<dots> = rev (rev x)" by (simp only: takeWhile_dropWhile_id)
  also have "\<dots> = x" by simp
  finally have "x = trim x @ rev (takeWhile is_space (rev x))" by (simp only: t)
  then have "take (length (trim x)) x =
      take (length (trim x)) (trim x @ rev (takeWhile is_space (rev x)))"
    by (rule arg_cong)
  then show ?thesis by simp
qed

lemma length_trim_le: "length (trim x) \<le> length x"
  unfolding trim_def length_rev
  by (rule le_trans [OF length_dropWhile_le]) (simp add: length_dropWhile_le)

lemma match_snippet:
  assumes i: "index m < endIndex m" and e: "endIndex m \<le> length s"
    and n: "\<not> is_space (s ! index m)"
  shows "slice s (index m) (index m + length (trim (match_text s m))) = trim (match_text s m)"
    and "index m + length (trim (match_text s m)) \<le> endIndex m"
proof -
  let ?x = "match_text s m"
  have x: "?x = take (endIndex m - index m) (drop (index m) s)"
    by (simp add: match_text_def slice_def)
  from i e have len: "length ?x = endIndex m - index m" by (simp add: x)
  with i have ne: "?x \<noteq> []" by auto
  from i e have "hd ?x = s ! index m"
    by (simp add: x hd_drop_conv_nth)
  with n have "\<not> is_space (hd ?x)" by simp
  from trim_prefix [OF ne this] have p: "take (length (trim ?x)) ?x = trim ?x" .
  from length_trim_le [of ?x] len have le: "length (trim ?x) \<le> endIndex m - index m" by simp
  then show "index m + length (trim ?x) \<le> endIndex m" using i by simp
  have "slice s (index m) (index m + length (trim ?x)) = take (length (trim ?x)) (drop (index m) s)"
    by (simp add: slice_def)
  also have "\<dots> = take (length (trim ?x)) ?x"
    using le by (simp add: x min_def)
  finally show "slice s (index m) (index m + length (trim ?x)) = trim ?x" using p by simp
qed

section \<open>The claims\<close>

text \<open>
  Claim C1 says that the empty string is analysed and reported \<open>Clean\<close>. The guard
  \<^verbatim>\<open>!code\<close> of \<open>analyze\<close> rejects the empty string as it rejects a missing
  argument: the report is the \<open>Error\<close> report.
\<close>
theorem analyze_empty_string_counterexample:
  "analyze fresh_cursors ''2026-01-01T00:00:00.000Z'' (JString (js '''')) =
       Some (\<lparr>timestamp = ''2026-01-01T00:00:00.000Z'', status = ''Error'',
              error = Some ''Invalid or missing code provided.'',
              totalIssues = None, issues = None\<rparr>, fresh_cursors)"
  by (simp add: analyze_def js_def)

text \<open>
  Claim C1, amended. The empty string gets the \<open>Error\<close> report; every string that is
  not empty and is empty after trimming (white space only) gets a report with status
  \<open>Clean\<close>, \<open>totalIssues = 0\<close> and an empty issues sequence.
\<close>
theorem analyze_blank:
  "analyze cur now (JString []) =
       Some (\<lparr>timestamp = now, status = ''Error'',
              error = Some ''Invalid or missing code provided.'',
              totalIssues = None, issues = None\<rparr>, cur) \<and>
   (s \<noteq> [] \<and> trim s = [] \<longrightarrow>
      (\<exists>cur'. analyze cur now (JString s) =
         Some (\<lparr>timestamp = now, status = ''Clean'', error = None,
                totalIssues = Some 0, issues = Some []\<rparr>, cur')))"
proof (intro conjI impI)
  show "analyze cur now (JString []) =
       Some (\<lparr>timestamp = now, status = ''Error'',
              error = Some ''Invalid or missing code provided.'',
              totalIssues = None, issues = None\<rparr>, cur)"
    by (simp add: analyze_def)
next
  assume a: "s \<noteq> [] \<and> trim s = []"
  then have "collected s = []" by (simp add: trim_empty collected_blank)
  with a show "\<exists>cur'. analyze cur now (JString s) =
         Some (\<lparr>timestamp = now, status = ''Clean'', error = None,
                totalIssues = Some 0, issues = Some []\<rparr>, cur')"
    by (simp add: analyze_string issues_report_def sort_issues_def)
qed

theorem analyze_blank_witness:
  "js '' '' \<noteq> [] \<and> trim (js '' '') = [] \<and>
   (\<exists>cur'. analyze fresh_cursors '''' (JString (js '' '')) =
         Some (\<lparr>timestamp = '''', status = ''Clean'', error = None,
                totalIssues = Some 0, issues = Some []\<rparr>, cur'))"
proof -
  have h: "js '' '' \<noteq> [] \<and> trim (js '' '') = []"
    by (simp add: js_def trim_def is_space_def white_space_def)
  with analyze_blank [of fresh_cursors "''''" "js '' ''"] show ?thesis by blast
qed

text \<open>
  Claim C2. For every input that is \<^verbatim>\<open>null\<close>, absent (\<^verbatim>\<open>undefined\<close>) or of any type
  other than string, \<open>analyze\<close> returns a report (it does not throw and it does not
  loop): the status is \<open>Error\<close>, the error message is the fixed text, and the report
  has neither a \<open>totalIssues\<close> nor an \<open>issues\<close> field, which tells it apart from
  a report without issues. The shared regular expressions are not touched.
\<close>
theorem analyze_rejects_non_string:
  "typeof v \<noteq> ''string'' \<Longrightarrow>
     analyze cur now v =
       Some (\<lparr>timestamp = now, status = ''Error'',
              error = Some ''Invalid or missing code provided.'',
              totalIssues = None, issues = None\<rparr>, cur)"
  by (simp add: analyze_def)

theorem analyze_rejects_non_string_witness:
  "typeof JNull \<noteq> ''string'' \<and>
   analyze fresh_cursors ''2026-01-01T00:00:00.000Z'' JNull =
       Some (\<lparr>timestamp = ''2026-01-01T00:00:00.000Z'', status = ''Error'',
              error = Some ''Invalid or missing code provided.'',
              totalIssues = None, issues = None\<rparr>, fresh_cursors)"
  using analyze_rejects_non_string [of JNull fresh_cursors "''2026-01-01T00:00:00.000Z''"]
  by simp

text \<open>
  Claim C3. For every string input, the issues sequence of the report is sorted: for
  adjacent issues \<open>a\<close>, \<open>b\<close> the rank of the severity of \<open>a\<close> (High 3, Medium 2,
  Low 1, Info 0) is at least that of \<open>b\<close>, and with equal ranks the line number of
  \<open>a\<close> is at most that of \<open>b\<close>. Every severity has a rank. The sort is stable: the
  issues that agree on rank and line number keep the order in which the loop over the
  catalog pushed them, which is the order of the rules and, within a rule, of its matches.
\<close>
theorem issues_sorted_stable:
  "analyze cur now (JString s) = Some (rep, cur') \<Longrightarrow> issues rep = Some xs \<Longrightarrow>
     (\<forall>i. Suc i < length xs \<longrightarrow>
        rank (xs ! Suc i) \<le> rank (xs ! i) \<and>
        (rank (xs ! i) = rank (xs ! Suc i) \<longrightarrow>
           lineNumber (occurrence (xs ! i)) \<le> lineNumber (occurrence (xs ! Suc i)))) \<and>
     (\<forall>a \<in> set xs. severityRank (issue_severity a) = Some (rank a)) \<and>
     forEach (regexp_test re_memo s 0) s ANALYSIS_RULES ([], cur) = Some (collected s, cur') \<and>
     (\<forall>k. filter (\<lambda>a. sort_key_of a = k) xs = filter (\<lambda>a. sort_key_of a = k) (collected s))"
proof -
  assume res: "analyze cur now (JString s) = Some (rep, cur')" and iss: "issues rep = Some xs"
  note f = analyze_issues_Some [OF res iss]
  have ranked: "\<forall>a \<in> set (collected s). severityRank (issue_severity a) \<noteq> None"
    using collected_ranked by simp
  have sorted: "sorted_wrt precedes xs"
    unfolding f(3) by (rule sorted_sort_issues [OF ranked])
  have adj: "\<forall>i. Suc i < length xs \<longrightarrow>
        rank (xs ! Suc i) \<le> rank (xs ! i) \<and>
        (rank (xs ! i) = rank (xs ! Suc i) \<longrightarrow>
           lineNumber (occurrence (xs ! i)) \<le> lineNumber (occurrence (xs ! Suc i)))"
  proof (intro allI impI)
    fix i assume "Suc i < length xs"
    with sorted have "precedes (xs ! i) (xs ! Suc i)"
      by (simp add: sorted_wrt_nth_less)
    then show "rank (xs ! Suc i) \<le> rank (xs ! i) \<and>
        (rank (xs ! i) = rank (xs ! Suc i) \<longrightarrow>
           lineNumber (occurrence (xs ! i)) \<le> lineNumber (occurrence (xs ! Suc i)))"
      by (auto simp: precedes_def)
  qed
  have rk: "\<forall>a \<in> set xs. severityRank (issue_severity a) = Some (rank a)"
    unfolding f(3) set_sort_issues using collected_ranked by blast
  have fe: "forEach (regexp_test re_memo s 0) s ANALYSIS_RULES ([], cur) = Some (collected s, cur')"
    by (simp add: forEach_total [OF catalog_patterns] collected_def f(4))
  have st: "\<forall>k. filter (\<lambda>a. sort_key_of a = k) xs = filter (\<lambda>a. sort_key_of a = k) (collected s)"
    unfolding f(3) by (simp add: sort_issues_stable)
  from adj rk fe st show ?thesis by blast
qed

theorem issues_sorted_stable_witness:
  "\<exists>rep cur' xs.
     analyze fresh_cursors '''' (JString (js ''useState(f)\<newline>key={i}'')) = Some (rep, cur') \<and>
     issues rep = Some xs \<and>
     map issue_id xs = [''B003'', ''A003''] \<and>
     map issue_id (collected (js ''useState(f)\<newline>key={i}'')) = [''A003'', ''B003''] \<and>
     (\<forall>i. Suc i < length xs \<longrightarrow>
        rank (xs ! Suc i) \<le> rank (xs ! i) \<and>
        (rank (xs ! i) = rank (xs ! Suc i) \<longrightarrow>
           lineNumber (occurrence (xs ! i)) \<le> lineNumber (occurrence (xs ! Suc i)))) \<and>
     (\<forall>k. filter (\<lambda>a. sort_key_of a = k) xs =
          filter (\<lambda>a. sort_key_of a = k) (collected (js ''useState(f)\<newline>key={i}'')))"
proof -
  let ?s = "js ''useState(f)\<newline>key={i}''"
  define rep where "rep = issues_report '''' (collected ?s)"
  have ne: "?s \<noteq> []" by (simp add: js_def)
  have a: "analyze fresh_cursors '''' (JString ?s) =
      Some (rep, reset_cursors ANALYSIS_RULES fresh_cursors)"
    unfolding rep_def by (rule analyze_string [OF ne])
  have i: "issues rep = Some (sort_issues (collected ?s))"
    by (simp add: rep_def issues_report_def)
  have ids: "map issue_id (sort_issues (collected ?s)) = [''B003'', ''A003'']"
    by code_simp
  have ids0: "map issue_id (collected ?s) = [''A003'', ''B003'']"
    by code_simp
  note t = issues_sorted_stable [OF a i]
  show ?thesis
    apply (rule exI [of _ rep])
    apply (rule exI [of _ "reset_cursors ANALYSIS_RULES fresh_cursors"])
    apply (rule exI [of _ "sort_issues (collected ?s)"])
    using a i ids ids0 t apply blast
    done
qed

text \<open>
  Claim C4 speaks of every string input. For the empty string the report is the
  \<open>Error\<close> report: its status is neither \<open>Clean\<close> nor \<open>Issues Found\<close> and it
  has no \<open>totalIssues\<close> and no \<open>issues\<close>.
\<close>
theorem report_counts_counterexample:
  "map_option (status \<circ> fst) (analyze fresh_cursors '''' (JString (js ''''))) = Some ''Error'' \<and>
   map_option (totalIssues \<circ> fst) (analyze fresh_cursors '''' (JString (js ''''))) = Some None \<and>
   map_option (issues \<circ> fst) (analyze fresh_cursors '''' (JString (js ''''))) = Some None"
  by (simp add: analyze_def js_def)

text \<open>
  Claim C4, amended. For every string input that is not empty, the report has an issues
  sequence and \<open>totalIssues\<close> is its length; the status is \<open>Clean\<close> when there is
  no issue and \<open>Issues Found\<close> otherwise; the severity of every issue is one of High,
  Medium, Low and Info.
\<close>
theorem report_counts:
  "s \<noteq> [] \<Longrightarrow>
     \<exists>rep cur' xs. analyze cur now (JString s) = Some (rep, cur') \<and> issues rep = Some xs \<and>
       totalIssues rep = Some (length xs) \<and>
       status rep = (if length xs = 0 then ''Clean'' else ''Issues Found'') \<and>
       (\<forall>a \<in> set xs. issue_severity a \<in> {''High'', ''Medium'', ''Low'', ''Info''})"
proof -
  assume ne: "s \<noteq> []"
  let ?rep = "issues_report now (collected s)"
  have "analyze cur now (JString s) = Some (?rep, reset_cursors ANALYSIS_RULES cur)"
    by (rule analyze_string [OF ne])
  moreover have "issues ?rep = Some (sort_issues (collected s))"
    by (simp add: issues_report_def)
  moreover have "totalIssues ?rep = Some (length (sort_issues (collected s)))"
    by (simp add: issues_report_def length_sort_issues)
  moreover have "status ?rep =
      (if length (sort_issues (collected s)) = 0 then ''Clean'' else ''Issues Found'')"
    by (simp add: issues_report_def length_sort_issues)
  moreover have "\<forall>a \<in> set (sort_issues (collected s)).
      issue_severity a \<in> {''High'', ''Medium'', ''Low'', ''Info''}"
    unfolding set_sort_issues using collected_severity by blast
  ultimately show ?thesis by blast
qed

theorem report_counts_witness:
  "js ''key={i}'' \<noteq> [] \<and>
   (\<exists>rep cur' xs. analyze fresh_cursors '''' (JString (js ''key={i}'')) = Some (rep, cur') \<and>
       issues rep = Some xs \<and> length xs = 1 \<and>
       totalIssues rep = Some (length xs) \<and>
       status rep = (if length xs = 0 then ''Clean'' else ''Issues Found'') \<and>
       (\<forall>a \<in> set xs. issue_severity a \<in> {''High'', ''Medium'', ''Low'', ''Info''}))"
proof -
  let ?s = "js ''key={i}''"
  have ne: "?s \<noteq> []" by (simp add: js_def)
  from report_counts [OF ne, of fresh_cursors "''''"] obtain rep cur' xs
    where r: "analyze fresh_cursors '''' (JString ?s) = Some (rep, cur')" "issues rep = Some xs"
      "totalIssues rep = Some (length xs)"
      "status rep = (if length xs = 0 then ''Clean'' else ''Issues Found'')"
      "\<forall>a \<in> set xs. issue_severity a \<in> {''High'', ''Medium'', ''Low'', ''Info''}"
    by blast
  have "length (sort_issues (collected ?s)) = 1" by code_simp
  with analyze_issues_Some(3) [OF r(1) r(2)] have "length xs = 1" by simp
  with ne r show ?thesis by blast
qed

text \<open>
  Claim C5. When the input has no match of \<^verbatim>\<open>/React\.memo\s*\(/\<close>, no issue of the
  report comes from rule B001A (none has its id or its type), whether or not the pattern
  of the rule matches. When the input has such a match and the pattern of B001A matches
  somewhere, the report contains an issue with the id and the type of B001A.
\<close>
theorem memo_gate:
  "(\<not> regexp_test re_memo s 0 \<longrightarrow>
      (\<forall>a \<in> set (report_issues (analyze cur now (JString s))).
         issue_id a \<noteq> ''B001A'' \<and> issue_type a \<noteq> ''inline-function-breaks-memoization'')) \<and>
   (regexp_test re_memo s 0 \<and> match_from (regex rule_B001A) s 0 \<noteq> None \<longrightarrow>
      (\<exists>a \<in> set (report_issues (analyze cur now (JString s))).
         issue_id a = ''B001A'' \<and> issue_type a = ''inline-function-breaks-memoization''))"
proof (intro conjI impI ballI)
  fix a
  assume nm: "\<not> regexp_test re_memo s 0"
    and "a \<in> set (report_issues (analyze cur now (JString s)))"
  then have "a \<in> set (collected s)" by (simp add: report_issues_analyze set_sort_issues)
  from collected_issue [OF this] obtain r m
    where r: "r \<in> set ANALYSIS_RULES" and a: "a = make_issue r s m"
      and g: "requiresMemoContext r \<longrightarrow> regexp_test re_memo s 0" by blast
  from g nm have "\<not> requiresMemoContext r" by blast
  with catalog_B001A r
  have "rule_id r \<noteq> ''B001A''" "rule_type r \<noteq> ''inline-function-breaks-memoization''"
    by blast+
  then show "issue_id a \<noteq> ''B001A''" "issue_type a \<noteq> ''inline-function-breaks-memoization''"
    by (simp_all add: a make_issue_fields)
next
  assume h: "regexp_test re_memo s 0 \<and> match_from (regex rule_B001A) s 0 \<noteq> None"
  then obtain m where m: "match_from (regex rule_B001A) s 0 = Some m" by blast
  let ?a = "make_issue rule_B001A s m"
  have ns: "\<not> suppressed rule_B001A s m"
    by (simp add: suppressed_def rule_B001A_def)
  from matches_from_first [OF m] ns h
  have "?a \<in> set (rule_issues (regexp_test re_memo s 0) s rule_B001A)"
    by (simp add: rule_issues_def)
  moreover have "rule_B001A \<in> set ANALYSIS_RULES" by (simp add: ANALYSIS_RULES_def)
  ultimately have "?a \<in> set (collected s)"
    unfolding collected_def set_concat set_map by blast
  then have "?a \<in> set (report_issues (analyze cur now (JString s)))"
    by (simp add: report_issues_analyze set_sort_issues)
  moreover have "issue_id ?a = ''B001A''" "issue_type ?a = ''inline-function-breaks-memoization''"
    by (simp_all add: make_issue_fields rule_B001A_def)
  ultimately show "\<exists>a \<in> set (report_issues (analyze cur now (JString s))).
         issue_id a = ''B001A'' \<and> issue_type a = ''inline-function-breaks-memoization''"
    by blast
qed

theorem memo_gate_witness:
  "\<not> regexp_test re_memo (js ''onClick={()=>1}'') 0 \<and>
   match_from (regex rule_B001A) (js ''onClick={()=>1}'') 0 \<noteq> None \<and>
   map issue_id (report_issues (analyze fresh_cursors '''' (JString (js ''onClick={()=>1}'')))) =
     [''B001B''] \<and>
   ''B001A'' \<notin> issue_id ` set (report_issues (analyze fresh_cursors '''' (JString (js ''onClick={()=>1}'')))) \<and>
   regexp_test re_memo (js ''React.memo(C) onClick={()=>1}'') 0 \<and>
   match_from (regex rule_B001A) (js ''React.memo(C) onClick={()=>1}'') 0 \<noteq> None \<and>
   (\<exists>a \<in> set (report_issues (analyze fresh_cursors '''' (JString (js ''React.memo(C) onClick={()=>1}'')))).
         issue_id a = ''B001A'' \<and> issue_type a = ''inline-function-breaks-memoization'')"
proof -
  have 1: "\<not> regexp_test re_memo (js ''onClick={()=>1}'') 0" by code_simp
  have 2: "match_from (regex rule_B001A) (js ''onClick={()=>1}'') 0 \<noteq> None" by code_simp
  have 3: "map issue_id (report_issues (analyze fresh_cursors '''' (JString (js ''onClick={()=>1}'')))) = [''B001B'']"
    by code_simp
  have 4: "regexp_test re_memo (js ''React.memo(C) onClick={()=>1}'') 0" by code_simp
  have 5: "match_from (regex rule_B001A) (js ''React.memo(C) onClick={()=>1}'') 0 \<noteq> None" by code_simp
  from memo_gate [of "js ''onClick={()=>1}''" fresh_cursors "''''"] 1
  have 6: "''B001A'' \<notin> issue_id ` set (report_issues (analyze fresh_cursors '''' (JString (js ''onClick={()=>1}''))))"
    by auto
  from memo_gate [of "js ''React.memo(C) onClick={()=>1}''" fresh_cursors "''''"] 4 5
  have 7: "\<exists>a \<in> set (report_issues (analyze fresh_cursors '''' (JString (js ''React.memo(C) onClick={()=>1}'')))).
         issue_id a = ''B001A'' \<and> issue_type a = ''inline-function-breaks-memoization''"
    by blast
  from 1 2 3 4 5 6 7 show ?thesis by blast
qed

text \<open>
  Claim C6. Every issue of rule A003 in the report comes from a match whose first capture
  group is not in the allow-list, and the number of A003 issues is the number of such
  matches: a match whose first group is in the list (compared as a string, so with the
  case of the letters) adds nothing. \<^verbatim>\<open>useState(Number)\<close> gives no issue at all;
  \<^verbatim>\<open>useState(myInitializerRef)\<close> gives exactly one issue, of rule A003, whose snippet
  is the whole call and whose match captured \<^verbatim>\<open>myInitializerRef\<close>.
\<close>
theorem safe_initializers_suppressed:
  "(\<forall>a \<in> set (report_issues (analyze cur now (JString s))). issue_id a = ''A003'' \<longrightarrow>
      (\<exists>m \<in> set (matches_from (regex rule_A003) s 0).
         a = make_issue rule_A003 s m \<and> \<not> has_initializer (match_group s m 1))) \<and>
   length (filter (\<lambda>a. issue_id a = ''A003'') (report_issues (analyze cur now (JString s)))) =
     length (filter (\<lambda>m. \<not> has_initializer (match_group s m 1))
               (matches_from (regex rule_A003) s 0)) \<and>
   report_issues (analyze cur now (JString (js ''useState(Number)''))) = [] \<and>
   map issue_id (report_issues (analyze cur now (JString (js ''useState(myInitializerRef)'')))) =
     [''A003''] \<and>
   map (snippet \<circ> occurrence)
       (report_issues (analyze cur now (JString (js ''useState(myInitializerRef)'')))) =
     [js ''useState(myInitializerRef)''] \<and>
   map (\<lambda>m. match_group (js ''useState(myInitializerRef)'') m 1)
       (matches_from (regex rule_A003) (js ''useState(myInitializerRef)'') 0) =
     [Some (js ''myInitializerRef'')]"
proof (intro conjI ballI impI)
  fix a
  assume "a \<in> set (report_issues (analyze cur now (JString s)))" and "issue_id a = ''A003''"
  then have "a \<in> set (filter (\<lambda>a. issue_id a = ''A003'') (collected s))"
    by (simp add: report_issues_analyze set_sort_issues)
  then show "\<exists>m \<in> set (matches_from (regex rule_A003) s 0).
         a = make_issue rule_A003 s m \<and> \<not> has_initializer (match_group s m 1)"
    unfolding filter_collected_A003 by auto
next
  show "length (filter (\<lambda>a. issue_id a = ''A003'') (report_issues (analyze cur now (JString s)))) =
     length (filter (\<lambda>m. \<not> has_initializer (match_group s m 1))
               (matches_from (regex rule_A003) s 0))"
    by (simp add: report_issues_analyze length_filter_sort_issues filter_collected_A003)
next
  have "sort_issues (collected (js ''useState(Number)'')) = []" by code_simp
  then show "report_issues (analyze cur now (JString (js ''useState(Number)''))) = []"
    by (simp add: report_issues_analyze)
next
  have "map issue_id (sort_issues (collected (js ''useState(myInitializerRef)''))) = [''A003'']"
    by code_simp
  then show "map issue_id (report_issues (analyze cur now (JString (js ''useState(myInitializerRef)'')))) =
     [''A003'']"
    by (simp add: report_issues_analyze)
next
  have "map (snippet \<circ> occurrence) (sort_issues (collected (js ''useState(myInitializerRef)''))) =
     [js ''useState(myInitializerRef)'']"
    by code_simp
  then show "map (snippet \<circ> occurrence)
       (report_issues (analyze cur now (JString (js ''useState(myInitializerRef)'')))) =
     [js ''useState(myInitializerRef)'']"
    by (simp add: report_issues_analyze)
next
  show "map (\<lambda>m. match_group (js ''useState(myInitializerRef)'') m 1)
       (matches_from (regex rule_A003) (js ''useState(myInitializerRef)'') 0) =
     [Some (js ''myInitializerRef'')]"
    by code_simp
qed

theorem safe_initializers_suppressed_witness:
  "map (\<lambda>m. match_group (js ''useState(Date) useState(date)'') m 1)
       (matches_from (regex rule_A003) (js ''useState(Date) useState(date)'') 0) =
     [Some (js ''Date''), Some (js ''date'')] \<and>
   map (\<lambda>a. (issue_id a, snippet (occurrence a)))
       (report_issues (analyze fresh_cursors '''' (JString (js ''useState(Date) useState(date)'')))) =
     [(''A003'', js ''useState(date)'')] \<and>
   (\<exists>a \<in> set (report_issues (analyze fresh_cursors '''' (JString (js ''useState(Date) useState(date)'')))).
      issue_id a = ''A003'' \<and>
      (\<exists>m \<in> set (matches_from (regex rule_A003) (js ''useState(Date) useState(date)'') 0).
         a = make_issue rule_A003 (js ''useState(Date) useState(date)'') m \<and>
         \<not> has_initializer (match_group (js ''useState(Date) useState(date)'') m 1))) \<and>
   length (filter (\<lambda>m. \<not> has_initializer (match_group (js ''useState(Date) useState(date)'') m 1))
               (matches_from (regex rule_A003) (js ''useState(Date) useState(date)'') 0)) = 1"
proof -
  let ?s = "js ''useState(Date) useState(date)''"
  let ?xs = "report_issues (analyze fresh_cursors '''' (JString ?s))"
  have 1: "map (\<lambda>m. match_group ?s m 1) (matches_from (regex rule_A003) ?s 0) =
     [Some (js ''Date''), Some (js ''date'')]"
    by code_simp
  have 2: "map (\<lambda>a. (issue_id a, snippet (occurrence a))) ?xs = [(''A003'', js ''useState(date)'')]"
    by code_simp
  then obtain a where xs: "?xs = [a]" and a: "issue_id a = ''A003''" by auto
  note t = safe_initializers_suppressed [of fresh_cursors "''''" ?s]
  from t xs a have 3: "\<exists>m \<in> set (matches_from (regex rule_A003) ?s 0).
         a = make_issue rule_A003 ?s m \<and> \<not> has_initializer (match_group ?s m 1)"
    by simp
  from t xs a have 4: "length (filter (\<lambda>m. \<not> has_initializer (match_group ?s m 1))
               (matches_from (regex rule_A003) ?s 0)) = 1"
    by simp
  from xs a 3 have 5: "\<exists>a \<in> set ?xs. issue_id a = ''A003'' \<and>
      (\<exists>m \<in> set (matches_from (regex rule_A003) ?s 0).
         a = make_issue rule_A003 ?s m \<and> \<not> has_initializer (match_group ?s m 1))"
    by simp
  from 1 2 5 4 show ?thesis by blast
qed

text \<open>
  Claim C7 takes \<open>charEnd\<close> for the offset just past the end of the match. The code
  adds the length of the trimmed text to the start. The patterns of C001 and C002 end in
  \<^verbatim>\<open>\s+\<close>, so their matches end in white space that trimming removes: in
  \<^verbatim>\<open><img src=x>\<close> the match of C001 is the five code units from 0 to 5, and
  \<open>charEnd\<close> is 4.
\<close>
theorem occurrence_positions_counterexample:
  "map issue_id (report_issues (analyze fresh_cursors '''' (JString (js ''<img src=x>'')))) = [''C001''] \<and>
   map index (matches_from (regex rule_C001) (js ''<img src=x>'') 0) = [0] \<and>
   map endIndex (matches_from (regex rule_C001) (js ''<img src=x>'') 0) = [5] \<and>
   map (charStart \<circ> occurrence)
       (report_issues (analyze fresh_cursors '''' (JString (js ''<img src=x>'')))) = [0] \<and>
   map (charEnd \<circ> occurrence)
       (report_issues (analyze fresh_cursors '''' (JString (js ''<img src=x>'')))) = [4]"
  by code_simp

text \<open>
  Claim C7, amended. Every issue of the report comes from a match of a rule of the catalog
  with: \<open>lineNumber\<close> one plus the number of newline characters before the start of the
  match; \<open>snippet\<close> the trimmed text of the match; \<open>charStart\<close> the start of the
  match; \<open>charEnd\<close> equal to \<open>charStart\<close> plus the length of the snippet, which is
  at most the end of the match; and the code units of the input from \<open>charStart\<close> to
  \<open>charEnd\<close> are the snippet.
\<close>
theorem occurrence_positions:
  "\<forall>a \<in> set (report_issues (analyze cur now (JString s))).
     \<exists>r \<in> set ANALYSIS_RULES. \<exists>m \<in> set (matches_from (regex r) s 0).
       issue_id a = rule_id r \<and>
       index m < endIndex m \<and> endIndex m \<le> length s \<and>
       lineNumber (occurrence a) = length (filter (\<lambda>u. u = 10) (take (index m) s)) + 1 \<and>
       snippet (occurrence a) = trim (slice s (index m) (endIndex m)) \<and>
       charStart (occurrence a) = index m \<and>
       charEnd (occurrence a) = index m + length (snippet (occurrence a)) \<and>
       charEnd (occurrence a) \<le> endIndex m \<and>
       slice s (charStart (occurrence a)) (charEnd (occurrence a)) = snippet (occurrence a)"
proof
  fix a assume "a \<in> set (report_issues (analyze cur now (JString s)))"
  then have "a \<in> set (collected s)" by (simp add: report_issues_analyze set_sort_issues)
  from collected_issue [OF this] obtain r m
    where r: "r \<in> set ANALYSIS_RULES" and m: "m \<in> set (matches_from (regex r) s 0)"
      and a: "a = make_issue r s m" by blast
  from r catalog_patterns have l: "leading (pattern (regex r))" by simp
  from matches_from_elem [OF l m]
  have b: "index m < endIndex m" "endIndex m \<le> length s" "\<not> is_space (s ! index m)"
    by simp_all
  note sn = match_snippet [OF b]
  have "issue_id a = rule_id r \<and>
       index m < endIndex m \<and> endIndex m \<le> length s \<and>
       lineNumber (occurrence a) = length (filter (\<lambda>u. u = 10) (take (index m) s)) + 1 \<and>
       snippet (occurrence a) = trim (slice s (index m) (endIndex m)) \<and>
       charStart (occurrence a) = index m \<and>
       charEnd (occurrence a) = index m + length (snippet (occurrence a)) \<and>
       charEnd (occurrence a) \<le> endIndex m \<and>
       slice s (charStart (occurrence a)) (charEnd (occurrence a)) = snippet (occurrence a)"
    using b sn by (simp add: a make_issue_fields count_newlines_def slice_def match_text_def)
  with r m show "\<exists>r \<in> set ANALYSIS_RULES. \<exists>m \<in> set (matches_from (regex r) s 0).
       issue_id a = rule_id r \<and>
       index m < endIndex m \<and> endIndex m \<le> length s \<and>
       lineNumber (occurrence a) = length (filter (\<lambda>u. u = 10) (take (index m) s)) + 1 \<and>
       snippet (occurrence a) = trim (slice s (index m) (endIndex m)) \<and>
       charStart (occurrence a) = index m \<and>
       charEnd (occurrence a) = index m + length (snippet (occurrence a)) \<and>
       charEnd (occurrence a) \<le> endIndex m \<and>
       slice s (charStart (occurrence a)) (charEnd (occurrence a)) = snippet (occurrence a)"
    by blast
qed

theorem occurrence_positions_witness:
  "map (lineNumber \<circ> occurrence)
       (report_issues (analyze fresh_cursors '''' (JString (js ''\<newline><input  x>'')))) = [2] \<and>
   map (snippet \<circ> occurrence)
       (report_issues (analyze fresh_cursors '''' (JString (js ''\<newline><input  x>'')))) = [js ''<input''] \<and>
   (\<exists>a \<in> set (report_issues (analyze fresh_cursors '''' (JString (js ''\<newline><input  x>'')))).
     \<exists>r \<in> set ANALYSIS_RULES. \<exists>m \<in> set (matches_from (regex r) (js ''\<newline><input  x>'') 0).
       issue_id a = rule_id r \<and>
       index m < endIndex m \<and> endIndex m \<le> length (js ''\<newline><input  x>'') \<and>
       lineNumber (occurrence a) =
         length (filter (\<lambda>u. u = 10) (take (index m) (js ''\<newline><input  x>''))) + 1 \<and>
       snippet (occurrence a) = trim (slice (js ''\<newline><input  x>'') (index m) (endIndex m)) \<and>
       charStart (occurrence a) = index m \<and>
       charEnd (occurrence a) = index m + length (snippet (occurrence a)) \<and>
       charEnd (occurrence a) \<le> endIndex m \<and>
       slice (js ''\<newline><input  x>'') (charStart (occurrence a)) (charEnd (occurrence a)) =
         snippet (occurrence a))"
proof -
  let ?s = "js ''\<newline><input  x>''"
  let ?xs = "report_issues (analyze fresh_cursors '''' (JString ?s))"
  have 1: "map (lineNumber \<circ> occurrence) ?xs = [2]"
    by code_simp
  have 2: "map (snippet \<circ> occurrence) ?xs = [js ''<input'']"
    by code_simp
  from 1 obtain a where a: "a \<in> set ?xs" by auto
  from occurrence_positions [of fresh_cursors "''''" ?s] a 1 2
  show ?thesis by blast
qed

text \<open>
  Claim C8. Two calls of \<open>analyze\<close> with the same string, the second one starting from
  the state of the shared regular expressions that the first one left, both return, and
  their reports differ in the timestamp only: issues (content and order), \<open>totalIssues\<close>,
  status and error are the same.
\<close>
theorem analyze_deterministic:
  "\<exists>rep1 c1 rep2 c2.
     analyze cur now1 (JString s) = Some (rep1, c1) \<and>
     analyze c1 now2 (JString s) = Some (rep2, c2) \<and>
     timestamp rep1 = now1 \<and> rep2 = rep1\<lparr>timestamp := now2\<rparr>"
proof (cases "s = []")
  case True
  then show ?thesis by (simp add: analyze_empty error_report_def)
next
  case False
  then show ?thesis by (simp add: analyze_string issues_report_def)
qed

theorem analyze_deterministic_witness:
  "\<exists>rep1 c1 rep2 c2.
     analyze fresh_cursors ''2026-01-01T00:00:00.000Z'' (JString (js ''key={i}'')) = Some (rep1, c1) \<and>
     analyze c1 ''2026-01-01T00:00:01.000Z'' (JString (js ''key={i}'')) = Some (rep2, c2) \<and>
     timestamp rep1 = ''2026-01-01T00:00:00.000Z'' \<and>
     rep2 = rep1\<lparr>timestamp := ''2026-01-01T00:00:01.000Z''\<rparr>"
  using analyze_deterministic [of fresh_cursors "''2026-01-01T00:00:00.000Z''" "js ''key={i}''"
      "''2026-01-01T00:00:01.000Z''"]
  by simp




text \<open>
  Claim C10. For every string input \<open>analyze\<close> returns, and every issue of the report
  has \<open>lineNumber \<ge> 1\<close>, \<open>0 \<le> charStart \<le> charEnd \<le> length input\<close> and
  \<open>charEnd - charStart\<close> equal to the length of the snippet.
\<close>
theorem occurrence_bounds:
  "analyze cur now (JString s) \<noteq> None \<and>
   (\<forall>a \<in> set (report_issues (analyze cur now (JString s))).
      1 \<le> lineNumber (occurrence a) \<and>
      0 \<le> charStart (occurrence a) \<and>
      charStart (occurrence a) \<le> charEnd (occurrence a) \<and>
      charEnd (occurrence a) \<le> length s \<and>
      charEnd (occurrence a) - charStart (occurrence a) = length (snippet (occurrence a)))"
proof
  show "analyze cur now (JString s) \<noteq> None"
    by (cases "s = []") (simp_all add: analyze_empty analyze_string)
next
  show "\<forall>a \<in> set (report_issues (analyze cur now (JString s))).
      1 \<le> lineNumber (occurrence a) \<and>
      0 \<le> charStart (occurrence a) \<and>
      charStart (occurrence a) \<le> charEnd (occurrence a) \<and>
      charEnd (occurrence a) \<le> length s \<and>
      charEnd (occurrence a) - charStart (occurrence a) = length (snippet (occurrence a))"
  proof
    fix a assume "a \<in> set (report_issues (analyze cur now (JString s)))"
    then have "a \<in> set (collected s)" by (simp add: report_issues_analyze set_sort_issues)
    from collected_issue [OF this] obtain r m
      where r: "r \<in> set ANALYSIS_RULES" and m: "m \<in> set (matches_from (regex r) s 0)"
        and a: "a = make_issue r s m" by blast
    from r catalog_patterns have l: "leading (pattern (regex r))" by simp
    from matches_from_elem [OF l m] have b: "index m < endIndex m" "endIndex m \<le> length s"
      by simp_all
    have "length (trim (match_text s m)) \<le> length (match_text s m)"
      unfolding trim_def length_rev
      by (rule le_trans [OF length_dropWhile_le]) (simp add: length_dropWhile_le)
    also have "\<dots> = endIndex m - index m"
      using b by (simp add: match_text_def slice_def)
    finally have "index m + length (trim (match_text s m)) \<le> length s" using b by simp
    then show "1 \<le> lineNumber (occurrence a) \<and>
      0 \<le> charStart (occurrence a) \<and>
      charStart (occurrence a) \<le> charEnd (occurrence a) \<and>
      charEnd (occurrence a) \<le> length s \<and>
      charEnd (occurrence a) - charStart (occurrence a) = length (snippet (occurrence a))"
      by (simp add: a make_issue_def Let_def)
  qed
qed

theorem occurrence_bounds_witness:
  "map (charStart \<circ> occurrence) (report_issues (analyze fresh_cursors '''' (JString (js ''<img >'')))) = [0] \<and>
   map (charEnd \<circ> occurrence) (report_issues (analyze fresh_cursors '''' (JString (js ''<img >'')))) = [4] \<and>
   analyze fresh_cursors '''' (JString (js ''<img >'')) \<noteq> None \<and>
   (\<exists>a \<in> set (report_issues (analyze fresh_cursors '''' (JString (js ''<img >'')))).
      1 \<le> lineNumber (occurrence a) \<and>
      0 \<le> charStart (occurrence a) \<and>
      charStart (occurrence a) \<le> charEnd (occurrence a) \<and>
      charEnd (occurrence a) \<le> length (js ''<img >'') \<and>
      charEnd (occurrence a) - charStart (occurrence a) = length (snippet (occurrence a)))"
proof -
  let ?xs = "report_issues (analyze fresh_cursors '''' (JString (js ''<img >'')))"
  have 1: "map (charStart \<circ> occurrence) ?xs = [0]"
    by code_simp
  have 2: "map (charEnd \<circ> occurrence) ?xs = [4]"
    by code_simp
  from 1 obtain a where a: "a \<in> set ?xs" by auto
  from occurrence_bounds [of fresh_cursors "''''" "js ''<img >''"] a 1 2
  show ?thesis by blast
qed

end
